theory Spec2Isabelle
  imports Main "HOL-Library.Word" "HOL-Library.Multiset"
begin

unbundle bit_operations_syntax

section \<open>Data model of mikettle.py\<close>

text \<open>
  An element of a Python \<open>bytes\<close> or \<open>bytearray\<close> object is an integer in the range
  0..255: a \<open>byte\<close>. Loop counters and the indices of the cipher are Python integers that
  never go negative: \<open>nat\<close>, with every \<open>& 0xff\<close> of the source written out.
\<close>

type_synonym byte = "8 word"

text \<open>The exceptions the modelled code can raise. \<open>Exception\<close> carries its message.\<close>

datatype error =
    IndexError
  | KeyError
  | ZeroDivisionError
  | TypeError
  | NameError
  | ValueError
  | AttributeError
  | OverflowError
  | LinkError
  | Exception string

definition TOKEN :: "byte list" where
  "TOKEN = [0xD5, 0xEB, 0xE8, 0xFF, 0x8B, 0x99, 0xA5, 0x27, 0x26, 0x14, 0x54, 0x12]"

definition SESSION_START :: "byte list" where
  "SESSION_START = [0x00, 0xBC, 0x43, 0xCD]"

definition SESSION_END :: "byte list" where
  "SESSION_END = [0x09, 0xAC, 0xBF, 0x93]"

definition CONFIRMATION :: "byte list" where
  "CONFIRMATION = [0xC9, 0x58, 0x9A, 0x36]"

definition MAC :: string where
  "MAC = ''78:11:DC:C2:F1:7F''"

definition HANDLE_AUTH :: nat where
  "HANDLE_AUTH = 37"

definition HANDLE_STATUS :: nat where
  "HANDLE_STATUS = 61"

section \<open>Cipher engine\<close>

text \<open>
  \<open>_cipherInit(key)\<close>. The first loop builds the identity buffer \<open>[0, ..., 255]\<close>. The second
  loop is \<open>cipherInit_loop\<close>, run over \<open>range(0, 256)\<close>, with the accumulator \<open>j\<close> and the
  buffer as its state; the tuple assignment \<open>perm[i], perm[j] = perm[j], perm[i]\<close> evaluates
  the right-hand side first and then stores into \<open>perm[i]\<close> and \<open>perm[j]\<close> in that order.
  An empty key makes \<open>i % keyLen\<close> raise \<open>ZeroDivisionError\<close> in the first iteration.
\<close>

fun cipherInit_loop :: "byte list \<Rightarrow> nat list \<Rightarrow> nat \<Rightarrow> byte list \<Rightarrow> byte list" where
  "cipherInit_loop key [] j perm = perm"
| "cipherInit_loop key (i # is) j perm =
     (let j = j + (unat (perm ! i) + unat (key ! (i mod length key)));
          j = j AND 0xff
      in cipherInit_loop key is j (perm[i := perm ! j, j := perm ! i]))"

definition cipherInit :: "byte list \<Rightarrow> error + byte list" where
  "cipherInit key =
     (let perm = map (\<lambda>i. of_nat (i AND 0xff)) [0..<256]
      in if length key = 0 then Inl ZeroDivisionError
         else Inr (cipherInit_loop key [0..<256] 0 perm))"

text \<open>
  \<open>_cipherCrypt(input, perm)\<close>. The buffer is a parameter, so each read of it is checked:
  an index at or beyond its length raises \<open>IndexError\<close>. The source mutates \<open>perm\<close> in
  place; the model returns the output together with the buffer as the loop leaves it.
\<close>

fun cipherCrypt_loop ::
  "byte list \<Rightarrow> nat \<Rightarrow> nat \<Rightarrow> byte list \<Rightarrow> byte list \<Rightarrow> error + (byte list \<times> byte list)" where
  "cipherCrypt_loop [] index1 index2 perm output = Inr (output, perm)"
| "cipherCrypt_loop (x # xs) index1 index2 perm output =
     (let index1 = index1 + 1;
          index1 = index1 AND 0xff
      in if \<not> index1 < length perm then Inl IndexError
         else
           let index2 = index2 + unat (perm ! index1);
               index2 = index2 AND 0xff
           in if \<not> index2 < length perm then Inl IndexError
              else
                let perm = perm[index1 := perm ! index2, index2 := perm ! index1];
                    idx = unat (perm ! index1) + unat (perm ! index2);
                    idx = idx AND 0xff
                in if \<not> idx < length perm then Inl IndexError
                   else
                     let outputByte = x XOR perm ! idx
                     in cipherCrypt_loop xs index1 index2 perm
                          (output @ [outputByte AND 0xff]))"

definition cipherCrypt :: "byte list \<Rightarrow> byte list \<Rightarrow> error + (byte list \<times> byte list)" where
  "cipherCrypt input perm = cipherCrypt_loop input 0 0 perm []"

text \<open>\<open>cipher(key, input)\<close>: a fresh buffer from the key, then one pass of the stream.\<close>

definition cipher :: "byte list \<Rightarrow> byte list \<Rightarrow> error + byte list" where
  "cipher key input =
     (case cipherInit key of
        Inl e \<Rightarrow> Inl e
      | Inr perm \<Rightarrow> map_sum id fst (cipherCrypt input perm))"

text \<open>
  The property of a buffer that the key schedule establishes: read as numbers, its
  entries are the values 0..255, each exactly once.
\<close>

definition is_permutation :: "byte list \<Rightarrow> bool" where
  "is_permutation perm = (mset (map unat perm) = mset [0..<256])"

section \<open>Key derivation\<close>

text \<open>\<open>xs[i]\<close> for a non-negative index: \<open>IndexError\<close> out of range.\<close>

definition index :: "'a list \<Rightarrow> nat \<Rightarrow> error + 'a" where
  "index xs i = (if i < length xs then Inr (xs ! i) else Inl IndexError)"

text \<open>Sequencing of computations that may raise: the first exception ends the sequence.\<close>

definition and_then :: "error + 'a \<Rightarrow> ('a \<Rightarrow> error + 'b) \<Rightarrow> error + 'b" where
  "and_then m f = (case m of Inl e \<Rightarrow> Inl e | Inr x \<Rightarrow> f x)"

text \<open>
  \<open>mixA\<close> and \<open>mixB\<close> read \<open>mac[0]\<close>, \<open>mac[2]\<close>, \<open>mac[5]\<close>, \<open>mac[4]\<close>, \<open>mac[1]\<close>: each read
  raises \<open>IndexError\<close> on a shorter \<open>mac\<close>. The product id is a Python integer; \<open>>> 8\<close> is
  \<open>drop_bit 8\<close> and \<open>& 0xff\<close> leaves a value that \<open>bytes([...])\<close> accepts.
\<close>

definition mixA :: "byte list \<Rightarrow> int \<Rightarrow> error + byte list" where
  "mixA mac productID =
     and_then (index mac 0) (\<lambda>m0.
     and_then (index mac 2) (\<lambda>m2.
     and_then (index mac 5) (\<lambda>m5.
     and_then (index mac 4) (\<lambda>m4.
     and_then (index mac 5) (\<lambda>m5'.
     and_then (index mac 1) (\<lambda>m1.
       Inr [m0, m2, m5, of_int (productID AND 0xff), of_int (productID AND 0xff),
            m4, m5', m1]))))))"

definition mixB :: "byte list \<Rightarrow> int \<Rightarrow> error + byte list" where
  "mixB mac productID =
     and_then (index mac 0) (\<lambda>m0.
     and_then (index mac 2) (\<lambda>m2.
     and_then (index mac 5) (\<lambda>m5.
     and_then (index mac 4) (\<lambda>m4.
     and_then (index mac 0) (\<lambda>m0'.
     and_then (index mac 5) (\<lambda>m5'.
       Inr [m0, m2, m5, of_int (drop_bit 8 productID AND 0xff), m4, m0', m5',
            of_int (productID AND 0xff)]))))))"

text \<open>
  \<open>generateEkey(token, challenge)\<close>: \<open>ekey[i] ^= tick[i]\<close> for \<open>i\<close> in \<open>range(0, 3)\<close> reads
  \<open>ekey[i]\<close>, then \<open>tick[i]\<close>, then stores; either read can raise \<open>IndexError\<close>.
\<close>

fun generateEkey_loop :: "nat list \<Rightarrow> byte list \<Rightarrow> byte list \<Rightarrow> error + byte list" where
  "generateEkey_loop [] tick ekey = Inr ekey"
| "generateEkey_loop (i # is) tick ekey =
     (if \<not> i < length ekey then Inl IndexError
      else if \<not> i < length tick then Inl IndexError
      else generateEkey_loop is tick (ekey[i := ekey ! i XOR tick ! i]))"

definition generateEkey :: "byte list \<Rightarrow> byte list \<Rightarrow> error + byte list" where
  "generateEkey token challenge =
     and_then (cipher token challenge) (\<lambda>tick.
       generateEkey_loop [0..<3] tick token)"

definition challengeResponse :: "byte list \<Rightarrow> error + byte list" where
  "challengeResponse ekey = cipher ekey SESSION_END"

text \<open>The slice \<open>[0:4]\<close> is \<open>take 4\<close>: a slice never raises.\<close>

definition checkConfirmation :: "byte list \<Rightarrow> byte list \<Rightarrow> error + bool" where
  "checkConfirmation ekey confirmation =
     and_then (cipher ekey confirmation) (\<lambda>out.
       let actual = take 4 out in Inr (actual = CONFIRMATION))"

section \<open>Status decoder\<close>

text \<open>
  A decoded reading is a Python dict from field names to strings and integers, here an
  association list in insertion order.
\<close>

datatype val = VStr string | VInt int

type_synonym reading = "(string \<times> val) list"

definition MI_ACTION :: string where "MI_ACTION = ''action''"
definition MI_MODE :: string where "MI_MODE = ''mode''"
definition MI_SET_TEMPERATURE :: string where "MI_SET_TEMPERATURE = ''set temperature''"
definition MI_CURRENT_TEMPERATURE :: string where
  "MI_CURRENT_TEMPERATURE = ''current temperature''"
definition MI_KW_TYPE :: string where "MI_KW_TYPE = ''keep warm type''"
definition MI_KW_TIME :: string where "MI_KW_TIME = ''keep warm time''"

definition MI_ACTION_MAP :: "(nat \<times> string) list" where
  "MI_ACTION_MAP = [(0, ''idle''), (1, ''heating''), (2, ''cooling''), (3, ''keeping warm'')]"

definition MI_MODE_MAP :: "(nat \<times> string) list" where
  "MI_MODE_MAP = [(255, ''none''), (1, ''boil''), (3, ''keep warm'')]"

definition MI_KW_TYPE_MAP :: "(nat \<times> string) list" where
  "MI_KW_TYPE_MAP = [(0, ''warm up''), (1, ''cool down'')]"

text \<open>\<open>d[k]\<close> on a dict: \<open>KeyError\<close> for a key that is not there.\<close>

definition getitem :: "('k \<times> 'v) list \<Rightarrow> 'k \<Rightarrow> error + 'v" where
  "getitem d k = (case map_of d k of None \<Rightarrow> Inl KeyError | Some v \<Rightarrow> Inr v)"

definition bytes_to_int :: "byte list \<Rightarrow> int" where
  "bytes_to_int bytes = foldl (\<lambda>result b. result * 256 + uint b) 0 bytes"

text \<open>
  \<open>_parse_data(data)\<close>, statement by statement. The last field is read from the slice
  \<open>data[7:8]\<close>, the elements at the positions \<open>7 \<le> i < 8\<close> that exist.
\<close>

definition parse_data :: "byte list \<Rightarrow> error + reading" where
  "parse_data data =
     and_then (index data 0) (\<lambda>b0.
     and_then (getitem MI_ACTION_MAP (unat b0)) (\<lambda>action.
     and_then (index data 1) (\<lambda>b1.
     and_then (getitem MI_MODE_MAP (unat b1)) (\<lambda>mode.
     and_then (index data 4) (\<lambda>b4.
     and_then (index data 5) (\<lambda>b5.
     and_then (index data 6) (\<lambda>b6.
     and_then (getitem MI_KW_TYPE_MAP (unat b6)) (\<lambda>kw_type.
       Inr [(MI_ACTION, VStr action),
            (MI_MODE, VStr mode),
            (MI_SET_TEMPERATURE, VInt (uint b4)),
            (MI_CURRENT_TEMPERATURE, VInt (uint b5)),
            (MI_KW_TYPE, VStr kw_type),
            (MI_KW_TIME, VInt (bytes_to_int (take (8 - 7) (drop 7 data))))]))))))))"

section \<open>The device object\<close>

text \<open>
  A \<open>datetime\<close> is the number of microseconds since \<open>datetime.min\<close>, the start of
  year 1; it goes up to \<open>datetime.max\<close>, the last microsecond of year 9999. A
  \<open>timedelta\<close> is a number of microseconds from \<open>timedelta.min\<close> (minus 999999999 days)
  to \<open>timedelta.max\<close> (one microsecond less than 1000000000 days). The constructor
  \<open>timedelta(seconds=n)\<close> and the sum or difference of a \<open>datetime\<close> and a \<open>timedelta\<close>
  raise \<open>OverflowError\<close> when the result leaves the range. \<open>seconds n\<close> is the number of
  microseconds in \<open>n\<close> seconds.
\<close>

definition seconds :: "int \<Rightarrow> int" where
  "seconds n = n * 1000000"

definition DATETIME_MAX :: int where
  "DATETIME_MAX = 3652059 * 86400000000 - 1"

definition TIMEDELTA_MIN :: int where
  "TIMEDELTA_MIN = - (999999999 * 86400000000)"

definition TIMEDELTA_MAX :: int where
  "TIMEDELTA_MAX = 1000000000 * 86400000000 - 1"

definition is_datetime :: "int \<Rightarrow> bool" where
  "is_datetime d = (0 \<le> d \<and> d \<le> DATETIME_MAX)"

definition timedelta_seconds :: "int \<Rightarrow> error + int" where
  "timedelta_seconds n =
     (if TIMEDELTA_MIN \<le> seconds n \<and> seconds n \<le> TIMEDELTA_MAX then Inr (seconds n)
      else Inl OverflowError)"

definition datetime_sub :: "int \<Rightarrow> int \<Rightarrow> error + int" where
  "datetime_sub d td = (if is_datetime (d - td) then Inr (d - td) else Inl OverflowError)"

definition datetime_add :: "int \<Rightarrow> int \<Rightarrow> error + int" where
  "datetime_add d td = (if is_datetime (d + td) then Inr (d + td) else Inl OverflowError)"

text \<open>
  \<open>datetime.now() - self._cache_timeout + timedelta(seconds=300)\<close>, the timestamp of the
  backoff: the difference is taken first, then the sum.
\<close>

definition backoff :: "int \<Rightarrow> int \<Rightarrow> error + int" where
  "backoff now timeout =
     and_then (datetime_sub now timeout) (\<lambda>d. datetime_add d (seconds 300))"

text \<open>
  \<open>reverseMac(mac)\<close>: \<open>mac.split(":")\<close>, then \<open>bytearray.fromhex\<close> of each part, last part
  first. \<open>fromhex\<close> skips ASCII whitespace before a byte and wants two hexadecimal digits
  for it; anything else is a \<open>ValueError\<close>.
\<close>

fun split_colon :: "string \<Rightarrow> string list" where
  "split_colon [] = [[]]"
| "split_colon (c # cs) =
     (if c = CHR '':'' then [] # split_colon cs
      else (case split_colon cs of [] \<Rightarrow> [[c]] | p # ps \<Rightarrow> (c # p) # ps))"

definition hex_digit :: "char \<Rightarrow> nat option" where
  "hex_digit c =
     (let n = (of_char c :: nat)
      in if 48 \<le> n \<and> n \<le> 57 then Some (n - 48)
         else if 97 \<le> n \<and> n \<le> 102 then Some (n - 87)
         else if 65 \<le> n \<and> n \<le> 70 then Some (n - 55)
         else None)"

definition is_space :: "char \<Rightarrow> bool" where
  "is_space c = ((of_char c :: nat) \<in> {9, 10, 11, 12, 13, 32})"

fun fromhex :: "string \<Rightarrow> error + byte list" where
  "fromhex [] = Inr []"
| "fromhex [c] = (if is_space c then Inr [] else Inl ValueError)"
| "fromhex (c # d # cs) =
     (if is_space c then fromhex (d # cs)
      else (case (hex_digit c, hex_digit d) of
              (Some hi, Some lo) \<Rightarrow>
                and_then (fromhex cs) (\<lambda>bs. Inr (of_nat (hi * 16 + lo) # bs))
            | _ \<Rightarrow> Inl ValueError))"

fun reverseMac_loop :: "string list \<Rightarrow> byte list \<Rightarrow> error + byte list" where
  "reverseMac_loop [] reversedMac = Inr reversedMac"
| "reverseMac_loop (part # parts) reversedMac =
     and_then (fromhex part) (\<lambda>bs. reverseMac_loop parts (reversedMac @ bs))"

definition reverseMac :: "string \<Rightarrow> error + byte list" where
  "reverseMac mac = (let parts = split_colon mac in reverseMac_loop (rev parts) [])"

text \<open>
  The fields that \<open>__init__\<close> sets, apart from the lock and the peripheral object.
  \<open>cache_timeout\<close> is a \<open>timedelta\<close>, \<open>last_read\<close> a \<open>datetime\<close> or \<open>None\<close>. \<open>__init__\<close>
  calls \<open>reverseMac\<close> first, then \<open>timedelta(seconds=cache_timeout)\<close>; either may raise.
\<close>

record kettle =
  mac :: string
  reversed_mac :: "byte list"
  cache :: "reading option"
  cache_timeout :: int
  last_read :: "int option"
  ekey :: "byte list option"
  challenging :: bool
  confirming :: bool
  connected :: bool
  authed :: bool
  retries :: int
  ble_timeout :: int
  product_id :: int
  token :: "byte list"

definition init :: "string \<Rightarrow> int \<Rightarrow> int \<Rightarrow> int \<Rightarrow> byte list \<Rightarrow> error + kettle" where
  "init mac0 product_id0 cache_timeout0 retries0 token0 =
     and_then (reverseMac mac0) (\<lambda>rmac.
     and_then (timedelta_seconds cache_timeout0) (\<lambda>timeout.
       Inr \<lparr>mac = mac0, reversed_mac = rmac, cache = None,
            cache_timeout = timeout, last_read = None, ekey = None,
            challenging = False, confirming = False, connected = False, authed = False,
            retries = retries0, ble_timeout = 10, product_id = product_id0,
            token = token0\<rparr>))"

definition cache_available :: "kettle \<Rightarrow> bool" where
  "cache_available self = (cache self \<noteq> None)"

definition clear_cache :: "kettle \<Rightarrow> kettle" where
  "clear_cache self = self\<lparr>cache := None, last_read := None\<rparr>"

text \<open>
  \<open>checkPairing(self, data)\<close>. The arguments of the outer \<open>cipher\<close> call are evaluated
  left to right: \<open>mixB\<close>, then the inner \<open>cipher\<close> with \<open>mixA\<close>. The result is the
  comparison \<open>!=\<close> of the source.
\<close>

definition checkPairing :: "kettle \<Rightarrow> byte list \<Rightarrow> error + bool" where
  "checkPairing self data =
     and_then (mixB (reversed_mac self) (product_id self)) (\<lambda>keyB.
     and_then (mixA (reversed_mac self) (product_id self)) (\<lambda>keyA.
     and_then (cipher keyA data) (\<lambda>inner.
     and_then (cipher keyB inner) (\<lambda>outer.
       Inr (outer \<noteq> token self)))))"

text \<open>
  \<open>handleNotification(self, cHandle, data)\<close>, with the value of \<open>datetime.now()\<close> as a
  parameter. The object keeps every assignment made before an exception, so the result is
  the outcome together with the object. \<open>data\<close> may be \<open>None\<close>: then \<open>len(input)\<close> in
  \<open>_cipherCrypt\<close> raises \<open>TypeError\<close> once \<open>_cipherInit\<close> has returned, and \<open>data.hex()\<close>
  raises \<open>AttributeError\<close>. An \<open>ekey\<close> that is still \<open>None\<close> makes \<open>len(key)\<close> raise
  \<open>TypeError\<close>. In the third branch of the authentication handle the bare name
  \<open>checkPairing\<close> is not bound in any scope of the module: \<open>NameError\<close>.
\<close>

definition handleNotification ::
  "nat \<Rightarrow> byte list option \<Rightarrow> int \<Rightarrow> kettle \<Rightarrow> (error + unit) \<times> kettle" where
  "handleNotification cHandle data now self =
     (if cHandle = HANDLE_AUTH then
        if challenging self then
          let self = self\<lparr>challenging := False\<rparr>;
              r = (case data of
                     None \<Rightarrow> and_then (cipherInit (token self)) (\<lambda>perm. Inl TypeError)
                   | Some d \<Rightarrow> generateEkey (token self) d)
          in (case r of
                Inl e \<Rightarrow> (Inl e, self)
              | Inr k \<Rightarrow> (Inr (), self\<lparr>ekey := Some k\<rparr>))
        else if confirming self then
          let self = self\<lparr>confirming := False\<rparr>;
              r = (case ekey self of
                     None \<Rightarrow> Inl TypeError
                   | Some k \<Rightarrow>
                       (case data of
                          None \<Rightarrow> and_then (cipherInit k) (\<lambda>perm. Inl TypeError)
                        | Some d \<Rightarrow> checkConfirmation k d))
          in (case r of
                Inl e \<Rightarrow> (Inl e, self)
              | Inr ok \<Rightarrow>
                  if \<not> ok then
                    (Inl (Exception ''Unexpected response during confirmation.''), self)
                  else (Inr (), self))
        else (Inl NameError, self)
      else if cHandle = HANDLE_STATUS then
        (case data of
           None \<Rightarrow> (Inr (), self)
         | Some d \<Rightarrow>
             (case parse_data d of
                Inl e \<Rightarrow> (Inl e, self)
              | Inr res \<Rightarrow>
                  let self = self\<lparr>cache := Some res\<rparr>
                  in if cache_available self then
                       (Inr (), self\<lparr>last_read := Some now\<rparr>)
                     else
                       (case backoff now (cache_timeout self) of
                          Inl e \<Rightarrow> (Inl e, self)
                        | Inr t \<Rightarrow> (Inr (), self\<lparr>last_read := Some t\<rparr>))))
      else
        (case data of
           None \<Rightarrow> (Inl AttributeError, self)
         | Some d \<Rightarrow> (Inr (), self)))"

section \<open>The BLE link and the cached reader\<close>

text \<open>
  The bluepy peripheral is outside the program. What it does during one call (the
  notifications it dispatches to the delegate, each with the time at which
  \<open>handleNotification\<close> reads the clock, and the exception the call then raises, if
  any) is an entry of a script; the calls of the program consume the script in order. A
  call beyond the end of the script dispatches nothing and returns. The counter \<open>fills\<close>
  is instrumentation: the number of times \<open>fill_cache\<close> has been entered.
\<close>

record link_call =
  notifications :: "(int \<times> nat \<times> byte list option) list"
  failure :: "error option"

record world =
  dev :: kettle
  link :: "link_call list"
  fills :: nat

type_synonym action = "world \<Rightarrow> (error + unit) \<times> world"

fun steps :: "action list \<Rightarrow> action" where
  "steps [] w = (Inr (), w)"
| "steps (m # ms) w =
     (case m w of
        (Inl e, w') \<Rightarrow> (Inl e, w')
      | (Inr u, w') \<Rightarrow> steps ms w')"

definition assign :: "(kettle \<Rightarrow> kettle) \<Rightarrow> action" where
  "assign f w = (Inr (), w\<lparr>dev := f (dev w)\<rparr>)"

fun dispatch :: "(int \<times> nat \<times> byte list option) list \<Rightarrow> kettle \<Rightarrow> (error + unit) \<times> kettle" where
  "dispatch [] self = (Inr (), self)"
| "dispatch ((now, cHandle, data) # ns) self =
     (case handleNotification cHandle data now self of
        (Inl e, self') \<Rightarrow> (Inl e, self')
      | (Inr u, self') \<Rightarrow> dispatch ns self')"

text \<open>
  \<open>Peripheral(self._mac)\<close>: the delegate is set only after the constructor returns, so
  nothing is dispatched to \<open>handleNotification\<close> during this call.
\<close>

definition Peripheral :: action where
  "Peripheral w =
     (case link w of
        [] \<Rightarrow> (Inr (), w)
      | c # cs \<Rightarrow>
          (case failure c of
             Some e \<Rightarrow> (Inl e, w\<lparr>link := cs\<rparr>)
           | None \<Rightarrow> (Inr (), w\<lparr>link := cs\<rparr>)))"

text \<open>
  Every other call on the peripheral (\<open>getServiceByUUID\<close>, \<open>getDescriptors\<close>, a
  descriptor \<open>write\<close>, \<open>writeCharacteristic\<close>, \<open>readCharacteristic\<close>,
  \<open>waitForNotifications\<close>) waits for the device and dispatches what arrives meanwhile.
\<close>

definition link_io :: action where
  "link_io w =
     (case link w of
        [] \<Rightarrow> (Inr (), w)
      | c # cs \<Rightarrow>
          (case dispatch (notifications c) (dev w) of
             (Inl e, self) \<Rightarrow> (Inl e, w\<lparr>dev := self, link := cs\<rparr>)
           | (Inr u, self) \<Rightarrow>
               (case failure c of
                  Some e \<Rightarrow> (Inl e, w\<lparr>dev := self, link := cs\<rparr>)
                | None \<Rightarrow> (Inr (), w\<lparr>dev := self, link := cs\<rparr>))))"

definition getServiceByUUID :: action where "getServiceByUUID = link_io"
definition getDescriptors :: action where "getDescriptors = link_io"
definition descriptor_write :: action where "descriptor_write = link_io"
definition writeCharacteristic :: action where "writeCharacteristic = link_io"
definition readCharacteristic :: action where "readCharacteristic = link_io"
definition waitForNotifications :: action where "waitForNotifications = link_io"

definition connect :: action where
  "connect w =
     (if \<not> connected (dev w) then
        steps [Peripheral, assign (\<lambda>self. self\<lparr>connected := True\<rparr>)] w
      else (Inr (), w))"

text \<open>
  The argument \<open>MiKettle.challengeResponse(self._ekey)\<close> of the second write is evaluated
  before the write: \<open>TypeError\<close> while \<open>ekey\<close> is \<open>None\<close>.
\<close>

definition challengeResponse_of_ekey :: action where
  "challengeResponse_of_ekey w =
     (case ekey (dev w) of
        None \<Rightarrow> (Inl TypeError, w)
      | Some k \<Rightarrow>
          (case challengeResponse k of
             Inl e \<Rightarrow> (Inl e, w)
           | Inr response \<Rightarrow> (Inr (), w)))"

definition auth :: action where
  "auth w =
     (if \<not> authed (dev w) then
        steps [getServiceByUUID, getDescriptors, descriptor_write,
               assign (\<lambda>self. self\<lparr>challenging := True\<rparr>),
               writeCharacteristic, waitForNotifications,
               assign (\<lambda>self. self\<lparr>confirming := True\<rparr>),
               challengeResponse_of_ekey, writeCharacteristic, waitForNotifications,
               readCharacteristic,
               assign (\<lambda>self. self\<lparr>authed := True\<rparr>)] w
      else (Inr (), w))"

definition subscribeToData :: action where
  "subscribeToData = steps [getServiceByUUID, getDescriptors, descriptor_write]"

text \<open>
  \<open>fill_cache(self)\<close>, with the value that \<open>datetime.now()\<close> has in the handler as a
  parameter; \<open>fill_cache_try\<close> is the body of its \<open>try\<close>. \<open>except Exception\<close>
  catches every exception of the model. The handler computes the timestamp of the backoff
  before it assigns anything: an \<open>OverflowError\<close> there escapes from \<open>fill_cache\<close> and
  leaves \<open>_last_read\<close>, \<open>_connected\<close> and \<open>_authed\<close> as the \<open>try\<close> body left them.
\<close>

definition fill_cache_try :: action where
  "fill_cache_try = steps [connect, auth, subscribeToData, waitForNotifications]"

definition fill_cache :: "int \<Rightarrow> action" where
  "fill_cache now w =
     (let w = w\<lparr>fills := fills w + 1\<rparr>
      in case fill_cache_try w of
           (Inr u, w') \<Rightarrow> (Inr (), w')
         | (Inl e, w') \<Rightarrow>
             (case backoff now (cache_timeout (dev w')) of
                Inl e' \<Rightarrow> (Inl e', w')
              | Inr t \<Rightarrow>
                  (Inr (), w'\<lparr>dev := (dev w')\<lparr>last_read := Some t,
                                connected := False, authed := False\<rparr>\<rparr>)))"

text \<open>
  \<open>parameter_value(self, parameter, read_cached)\<close>: \<open>now\<close> is the clock in the test
  of the cache, \<open>now'\<close> the clock in the handler of \<open>fill_cache\<close>, should it run.
  \<open>cache_stale\<close> is the condition of the \<open>if\<close>: the \<open>or\<close> evaluates the difference
  \<open>datetime.now() - self._cache_timeout\<close> only when \<open>read_cached\<close> is not \<open>False\<close> and a
  timestamp exists, and an \<open>OverflowError\<close> of that difference, like an exception that
  escapes from \<open>fill_cache\<close>, escapes from \<open>parameter_value\<close>. The \<open>else\<close> branch only
  logs; the difference of two \<open>datetime\<close> values that it takes is always a \<open>timedelta\<close>.
\<close>

definition cache_stale :: "bool \<Rightarrow> int \<Rightarrow> kettle \<Rightarrow> error + bool" where
  "cache_stale read_cached now self =
     (if read_cached = False then Inr True
      else (case last_read self of
              None \<Rightarrow> Inr True
            | Some t \<Rightarrow>
                and_then (datetime_sub now (cache_timeout self)) (\<lambda>d. Inr (d > t))))"

definition parameter_value ::
  "string \<Rightarrow> bool \<Rightarrow> int \<Rightarrow> int \<Rightarrow> world \<Rightarrow> (error + val) \<times> world" where
  "parameter_value parameter read_cached now now' w =
     (case cache_stale read_cached now (dev w) of
        Inl e \<Rightarrow> (Inl e, w)
      | Inr stale \<Rightarrow>
          (case (if stale then fill_cache now' w else (Inr (), w)) of
             (Inl e, w') \<Rightarrow> (Inl e, w')
           | (Inr u, w') \<Rightarrow>
               (case cache (dev w') of
                  Some c \<Rightarrow> (getitem c parameter, w')
                | None \<Rightarrow>
                    (Inl (Exception (''Could not read data from MiKettle '' @ mac (dev w'))),
                     w'))))"

text \<open>
  The ways in which a caller or the link acts on the object, each with the script of the
  link for its duration; an exception that escapes leaves the object as it is then.
\<close>

datatype operation =
    ParameterValue string bool int int "link_call list"
  | FillCache int "link_call list"
  | ClearCache
  | HandleNotification nat "byte list option" int
  | Connect "link_call list"
  | Auth "link_call list"
  | SubscribeToData "link_call list"

fun perform :: "operation \<Rightarrow> world \<Rightarrow> world" where
  "perform (ParameterValue parameter read_cached now now' script) w =
     snd (parameter_value parameter read_cached now now' (w\<lparr>link := script\<rparr>))"
| "perform (FillCache now script) w = snd (fill_cache now (w\<lparr>link := script\<rparr>))"
| "perform ClearCache w = w\<lparr>dev := clear_cache (dev w)\<rparr>"
| "perform (HandleNotification cHandle data now) w =
     w\<lparr>dev := snd (handleNotification cHandle data now (dev w))\<rparr>"
| "perform (Connect script) w = snd (connect (w\<lparr>link := script\<rparr>))"
| "perform (Auth script) w = snd (auth (w\<lparr>link := script\<rparr>))"
| "perform (SubscribeToData script) w = snd (subscribeToData (w\<lparr>link := script\<rparr>))"

fun perform_all :: "operation list \<Rightarrow> world \<Rightarrow> world" where
  "perform_all [] w = w"
| "perform_all (op # ops) w = perform_all ops (perform op w)"

definition start :: "kettle \<Rightarrow> world" where
  "start self = \<lparr>dev = self, link = [], fills = 0\<rparr>"

text \<open>The object that \<open>MiKettle()\<close> constructs from the default arguments.\<close>

definition default_kettle :: kettle where
  "default_kettle =
     \<lparr>mac = MAC, reversed_mac = [0x7F, 0xF1, 0xC2, 0xDC, 0x11, 0x78], cache = None,
      cache_timeout = seconds 600, last_read = None, ekey = None,
      challenging = False, confirming = False, connected = False, authed = False,
      retries = 3, ble_timeout = 10, product_id = 131, token = TOKEN\<rparr>"

text \<open>
  The object with a timeout of \<open>10 ^ 11\<close> seconds, about 3169 years: a \<open>timedelta\<close>, and
  longer than the time from the start of year 1 to any day of the third millennium.
\<close>

definition long_timeout_kettle :: kettle where
  "long_timeout_kettle = default_kettle\<lparr>cache_timeout := seconds 100000000000\<rparr>"

section \<open>Properties of the cache\<close>

text \<open>
  The invariant of the specification (reading and timestamp both present or both absent),
  and the one that the code keeps (no reading without a timestamp).
\<close>

definition both_or_neither :: "kettle \<Rightarrow> bool" where
  "both_or_neither self = ((cache self = None) = (last_read self = None))"

definition reading_has_timestamp :: "kettle \<Rightarrow> bool" where
  "reading_has_timestamp self = (cache self = None \<or> last_read self \<noteq> None)"

text \<open>
  What no call changes (the timeout and, outside \<open>fill_cache\<close>, the counter) and what
  every call keeps (no reading without a timestamp), as a relation between the world
  before and after.
\<close>

definition frame :: "world \<Rightarrow> world \<Rightarrow> bool" where
  "frame w w' =
     (fills w' = fills w \<and> cache_timeout (dev w') = cache_timeout (dev w) \<and>
      (\<not> reading_has_timestamp (dev w) \<or> reading_has_timestamp (dev w')))"

definition keeps :: "action \<Rightarrow> bool" where
  "keeps m = (\<forall>w. frame w (snd (m w)))"

section \<open>Properties of the cipher engine\<close>

subsection \<open>Masks and exclusive or on bytes\<close>

lemma and_255_less: "(n::nat) AND 0xff < 256"
proof -
  have "(255::nat) = mask 8" by (simp add: mask_eq_exp_minus_1)
  then have "n AND 0xff = take_bit 8 n" by (simp add: take_bit_eq_mask)
  then show ?thesis by (simp add: take_bit_eq_mod)
qed

lemma and_255_id: "n < 256 \<Longrightarrow> (n::nat) AND 0xff = n"
proof -
  assume a: "n < 256"
  have "(255::nat) = mask 8" by (simp add: mask_eq_exp_minus_1)
  then have "n AND 0xff = take_bit 8 n" by (simp add: take_bit_eq_mask)
  then show ?thesis using a by (simp add: take_bit_eq_mod)
qed

lemma byte_and_255: "(w::byte) AND 0xff = w"
proof -
  have "(255::byte) = mask 8" by (simp add: mask_eq_exp_minus_1)
  then have "w AND 0xff = take_bit 8 w" by (simp add: take_bit_eq_mask)
  then show ?thesis by (simp add: take_bit_word_eq_self)
qed

lemma byte_xor_cancel: "((x::byte) XOR k) XOR k = x"
  by (simp add: xor.assoc)

subsection \<open>The buffer stays a permutation; the keystream depends on the key and the length only\<close>

lemma is_permutation_length: "is_permutation perm \<Longrightarrow> length perm = 256"
proof -
  assume "is_permutation perm"
  then have "size (mset (map unat perm)) = size (mset [0..<256])"
    by (simp add: is_permutation_def)
  then show ?thesis by simp
qed

lemma swap_is_permutation:
  assumes "is_permutation perm" and "i < 256" and "j < 256"
  shows "is_permutation (perm[i := perm ! j, j := perm ! i])"
proof -
  have len: "length perm = 256" using assms(1) by (rule is_permutation_length)
  have "mset (perm[i := perm ! j, j := perm ! i]) = mset perm"
    using mset_swap [of j perm i] assms len by simp
  then have "mset (map unat (perm[i := perm ! j, j := perm ! i])) = mset (map unat perm)"
    by (metis mset_map)
  then show ?thesis using assms(1) by (simp only: is_permutation_def)
qed

lemma identity_is_permutation:
  "is_permutation (map (\<lambda>i. of_nat (i AND 0xff)) [0..<256])"
proof -
  have "map unat (map (\<lambda>i. of_nat (i AND 0xff) :: byte) [0..<256]) = map (\<lambda>i. i) [0..<256]"
    unfolding map_map
  proof (rule map_cong [OF refl])
    fix i :: nat assume "i \<in> set [0..<256]"
    then have i: "i < 256" by simp
    then have "i AND 0xff = i" by (rule and_255_id)
    then show "(unat \<circ> (\<lambda>i. of_nat (i AND 0xff) :: byte)) i = i"
      using i by (simp add: unat_of_nat)
  qed
  then show ?thesis by (simp add: is_permutation_def)
qed

lemma cipherInit_loop_is_permutation:
  "is_permutation perm \<Longrightarrow> \<forall>i \<in> set is. i < 256 \<Longrightarrow>
     is_permutation (cipherInit_loop key is j perm)"
proof (induction "is" arbitrary: j perm)
  case Nil
  then show ?case by simp
next
  case (Cons i "is")
  let ?j = "(j + (unat (perm ! i) + unat (key ! (i mod length key)))) AND 0xff"
  have "is_permutation (perm[i := perm ! ?j, ?j := perm ! i])"
    using Cons.prems and_255_less [of "j + (unat (perm ! i) + unat (key ! (i mod length key)))"]
    by (intro swap_is_permutation) simp_all
  then have "is_permutation (cipherInit_loop key is ?j (perm[i := perm ! ?j, ?j := perm ! i]))"
    using Cons.prems by (intro Cons.IH) simp_all
  then show ?case by (simp add: Let_def)
qed

lemma cipherInit_is_permutation:
  "key \<noteq> [] \<Longrightarrow> \<exists>perm. cipherInit key = Inr perm \<and> is_permutation perm"
  using cipherInit_loop_is_permutation [OF identity_is_permutation, of "[0..<256]" key 0]
  by (simp add: cipherInit_def Let_def)

lemma cipherCrypt_loop_is_permutation:
  "is_permutation perm \<Longrightarrow>
     \<exists>out perm'. cipherCrypt_loop input index1 index2 perm out0 = Inr (out, perm')
       \<and> is_permutation perm'"
proof (induction input arbitrary: index1 index2 perm out0)
  case Nil
  then show ?case by simp
next
  case (Cons x xs)
  let ?i1 = "(index1 + 1) AND 0xff"
  let ?i2 = "(index2 + unat (perm ! ?i1)) AND 0xff"
  let ?perm = "perm[?i1 := perm ! ?i2, ?i2 := perm ! ?i1]"
  let ?idx = "(unat (?perm ! ?i1) + unat (?perm ! ?i2)) AND 0xff"
  have len: "length perm = 256" using Cons.prems by (rule is_permutation_length)
  have i1: "?i1 < 256" by (rule and_255_less)
  have i2: "?i2 < 256" by (rule and_255_less)
  have idx: "?idx < 256" by (rule and_255_less)
  have p: "is_permutation ?perm" using Cons.prems i1 i2 by (rule swap_is_permutation)
  have step: "cipherCrypt_loop (x # xs) index1 index2 perm out0 =
      cipherCrypt_loop xs ?i1 ?i2 ?perm (out0 @ [(x XOR ?perm ! ?idx) AND 0xff])"
    using len i1 i2 idx by (simp add: Let_def)
  show ?case unfolding step by (rule Cons.IH [OF p])
qed

lemma cipherCrypt_loop_keystream:
  "length perm = 256 \<Longrightarrow>
     \<exists>ks perm'. length ks = n \<and>
       (\<forall>ys out. length ys = n \<longrightarrow>
          cipherCrypt_loop ys index1 index2 perm out = Inr (out @ map2 (XOR) ys ks, perm'))"
proof (induction n arbitrary: index1 index2 perm)
  case 0
  then show ?case by simp
next
  case (Suc n)
  let ?i1 = "(index1 + 1) AND 0xff"
  let ?i2 = "(index2 + unat (perm ! ?i1)) AND 0xff"
  let ?perm = "perm[?i1 := perm ! ?i2, ?i2 := perm ! ?i1]"
  let ?idx = "(unat (?perm ! ?i1) + unat (?perm ! ?i2)) AND 0xff"
  have len: "length perm = 256" by (rule Suc.prems)
  have i1: "?i1 < 256" by (rule and_255_less)
  have i2: "?i2 < 256" by (rule and_255_less)
  have idx: "?idx < 256" by (rule and_255_less)
  have "length ?perm = 256" using len by simp
  from Suc.IH [OF this, of ?i1 ?i2] obtain ks perm' where ks: "length ks = n"
    and run: "\<And>ys out. length ys = n \<Longrightarrow>
       cipherCrypt_loop ys ?i1 ?i2 ?perm out = Inr (out @ map2 (XOR) ys ks, perm')"
    by blast
  have "\<forall>ys out. length ys = Suc n \<longrightarrow>
     cipherCrypt_loop ys index1 index2 perm out
       = Inr (out @ map2 (XOR) ys ((?perm ! ?idx) # ks), perm')"
  proof (intro allI impI)
    fix ys :: "byte list" and out :: "byte list"
    assume "length ys = Suc n"
    then obtain y ys' where ys: "ys = y # ys'" and l: "length ys' = n"
      by (cases ys) auto
    have "cipherCrypt_loop (y # ys') index1 index2 perm out =
      cipherCrypt_loop ys' ?i1 ?i2 ?perm (out @ [(y XOR ?perm ! ?idx) AND 0xff])"
      using len i1 i2 idx by (simp add: Let_def)
    also have "\<dots> = Inr ((out @ [(y XOR ?perm ! ?idx) AND 0xff]) @ map2 (XOR) ys' ks, perm')"
      by (rule run [OF l])
    finally show "cipherCrypt_loop ys index1 index2 perm out
       = Inr (out @ map2 (XOR) ys ((?perm ! ?idx) # ks), perm')"
      by (simp add: ys byte_and_255)
  qed
  then show ?case using ks by (intro exI [of _ "(?perm ! ?idx) # ks"] exI [of _ perm']) simp
qed

lemma map2_xor_cancel:
  "length ks = length (p :: byte list) \<Longrightarrow> map2 (XOR) (map2 (XOR) p ks) ks = p"
proof (induction p arbitrary: ks)
  case Nil
  then show ?case by simp
next
  case (Cons x xs)
  then obtain k ks' where "ks = k # ks'" by (cases ks) auto
  with Cons show ?case by (simp add: byte_xor_cancel)
qed

lemma cipher_involution:
  assumes "k \<noteq> []"
  shows "\<exists>c. cipher k p = Inr c \<and> length c = length p \<and> cipher k c = Inr p"
proof -
  from cipherInit_is_permutation [OF assms] obtain perm
    where init: "cipherInit k = Inr perm" and perm: "is_permutation perm" by blast
  have len: "length perm = 256" using perm by (rule is_permutation_length)
  from cipherCrypt_loop_keystream [OF len, of "length p" 0 0] obtain ks perm'
    where ks: "length ks = length p"
      and run: "\<And>ys out. length ys = length p \<Longrightarrow>
        cipherCrypt_loop ys 0 0 perm out = Inr (out @ map2 (XOR) ys ks, perm')"
    by blast
  let ?c = "map2 (XOR) p ks"
  have c: "cipher k p = Inr ?c"
    using run [of p "[]"] by (simp add: cipher_def init cipherCrypt_def)
  have lc: "length ?c = length p" using ks by simp
  have "cipher k ?c = Inr (map2 (XOR) ?c ks)"
    using run [OF lc, of "[]"] by (simp add: cipher_def init cipherCrypt_def)
  then have "cipher k ?c = Inr p" using ks by (simp only: map2_xor_cancel)
  with c lc show ?thesis by blast
qed

text \<open>
  C9. For a non-empty key, \<open>_cipherInit\<close> returns a buffer that holds each of the values
  0..255 once. \<open>_cipherCrypt\<close> on that buffer, for an input of any length (so after any
  number of iterations), reads the buffer in range only (it returns, where an
  out-of-range read would be an \<open>IndexError\<close>) and leaves a buffer that again holds each
  of the values 0..255 once.
\<close>

theorem cipher_buffer_stays_permutation:
  "key \<noteq> [] \<Longrightarrow>
     \<exists>perm. cipherInit key = Inr perm \<and> is_permutation perm \<and>
       (\<forall>input. \<exists>out perm'. cipherCrypt input perm = Inr (out, perm')
          \<and> is_permutation perm')"
proof -
  assume "key \<noteq> []"
  then obtain perm where init: "cipherInit key = Inr perm" and p: "is_permutation perm"
    using cipherInit_is_permutation by blast
  have "\<forall>input. \<exists>out perm'. cipherCrypt input perm = Inr (out, perm')
          \<and> is_permutation perm'"
    unfolding cipherCrypt_def using cipherCrypt_loop_is_permutation [OF p] by blast
  with init p show ?thesis by blast
qed

theorem cipher_buffer_stays_permutation_witness:
  "\<exists>perm. cipherInit [1, 2, 3] = Inr perm \<and> is_permutation perm \<and>
     (\<forall>input. \<exists>out perm'. cipherCrypt input perm = Inr (out, perm')
        \<and> is_permutation perm')"
  using cipher_buffer_stays_permutation [of "[1, 2, 3]"] by simp

text \<open>
  C3. For every non-empty key \<open>k\<close> and every byte sequence \<open>p\<close>, \<open>cipher(k, p)\<close> returns
  some \<open>c\<close>, and \<open>cipher(k, c)\<close> returns \<open>p\<close>.
\<close>

theorem cipher_round_trip:
  "k \<noteq> [] \<Longrightarrow> \<exists>c. cipher k p = Inr c \<and> cipher k c = Inr p"
  using cipher_involution [of k p] by blast

theorem cipher_round_trip_witness:
  "\<exists>c. cipher [0xD5, 0xEB] [1, 2, 3] = Inr c \<and> cipher [0xD5, 0xEB] c = Inr [1, 2, 3]"
  using cipher_round_trip [of "[0xD5, 0xEB]" "[1, 2, 3]"] by simp

section \<open>Properties of the key derivation\<close>

lemma cipher_empty: "key \<noteq> [] \<Longrightarrow> cipher key [] = Inr []"
  using cipher_involution [of key "[]"] by auto

lemma generateEkey_loop_3:
  "3 \<le> length ek \<Longrightarrow> 3 \<le> length tick \<Longrightarrow>
     generateEkey_loop [0..<3] tick ek =
       Inr (ek[0 := ek ! 0 XOR tick ! 0, 1 := ek ! 1 XOR tick ! 1,
                 2 := ek ! 2 XOR tick ! 2])"
proof -
  assume a: "3 \<le> length ek" "3 \<le> length tick"
  have "[0..<3] = [0, 1, 2]" by (simp add: upt_rec)
  then show ?thesis using a by auto
qed

lemma take3_update:
  "3 \<le> length (xs :: byte list) \<Longrightarrow> 3 \<le> length ys \<Longrightarrow>
     take 3 (xs[0 := xs ! 0 XOR ys ! 0, 1 := xs ! 1 XOR ys ! 1, 2 := xs ! 2 XOR ys ! 2])
       = map2 (XOR) (take 3 xs) (take 3 ys)"
proof -
  assume a: "3 \<le> length xs" "3 \<le> length ys"
  then obtain x0 x1 x2 xs' where xs: "xs = x0 # x1 # x2 # xs'"
    by (cases xs; cases "tl xs"; cases "tl (tl xs)") auto
  from a obtain y0 y1 y2 ys' where ys: "ys = y0 # y1 # y2 # ys'"
    by (cases ys; cases "tl ys"; cases "tl (tl ys)") auto
  show ?thesis by (simp add: xs ys)
qed

lemma generateEkey_bytes:
  assumes "length tok = 12" and "3 \<le> length challenge"
  shows "\<exists>tick ek. cipher tok challenge = Inr tick \<and>
           generateEkey tok challenge = Inr ek \<and> length ek = 12 \<and>
           take 3 ek = map2 (XOR) (take 3 tok) (take 3 tick) \<and>
           drop 3 ek = drop 3 tok"
proof -
  have "tok \<noteq> []" using assms(1) by auto
  from cipher_involution [OF this, of challenge] obtain tick
    where tick: "cipher tok challenge = Inr tick" and len: "length tick = length challenge"
    by blast
  let ?ek = "tok[0 := tok ! 0 XOR tick ! 0, 1 := tok ! 1 XOR tick ! 1,
                     2 := tok ! 2 XOR tick ! 2]"
  have t3: "3 \<le> length tok" using assms(1) by simp
  have k3: "3 \<le> length tick" using assms(2) len by simp
  have g: "generateEkey tok challenge = Inr ?ek"
    unfolding generateEkey_def tick and_then_def
    using generateEkey_loop_3 [OF t3 k3] by simp
  have l: "length ?ek = 12" using assms(1) by simp
  have t: "take 3 ?ek = map2 (XOR) (take 3 tok) (take 3 tick)"
    by (rule take3_update [OF t3 k3])
  have d: "drop 3 ?ek = drop 3 tok" by simp
  from tick g l t d show ?thesis by blast
qed

text \<open>
  C6. For every 12-byte token and every challenge of at least 3 bytes,
  \<open>generateEkey(token, challenge)\<close> returns 12 bytes: the first 3 are the first 3 bytes of
  the token, each combined by exclusive or with the byte at its position in
  \<open>cipher(token, challenge)\<close>; the bytes from position 3 on are those of the token.
\<close>

theorem generateEkey_first_three_xored:
  "length tok = 12 \<Longrightarrow> 3 \<le> length challenge \<Longrightarrow>
     \<exists>tick ek. cipher tok challenge = Inr tick \<and>
       generateEkey tok challenge = Inr ek \<and> length ek = 12 \<and>
       take 3 ek = map2 (XOR) (take 3 tok) (take 3 tick) \<and>
       drop 3 ek = drop 3 tok"
  by (rule generateEkey_bytes)

theorem generateEkey_first_three_xored_witness:
  "\<exists>tick ek. cipher TOKEN SESSION_START = Inr tick \<and>
     generateEkey TOKEN SESSION_START = Inr ek \<and> length ek = 12 \<and>
     take 3 ek = map2 (XOR) (take 3 TOKEN) (take 3 tick) \<and>
     drop 3 ek = drop 3 TOKEN"
proof -
  have l: "length TOKEN = 12" by (simp add: TOKEN_def)
  have c: "3 \<le> length SESSION_START" by (simp add: SESSION_START_def)
  show ?thesis using generateEkey_first_three_xored [OF l c] .
qed

lemma init_default: "init MAC 131 600 3 TOKEN = Inr default_kettle"
  by (simp add: init_def MAC_def reverseMac_def and_then_def hex_digit_def is_space_def
      default_kettle_def timedelta_seconds_def seconds_def TIMEDELTA_MIN_def TIMEDELTA_MAX_def)

lemma mix_default:
  "mixA (reversed_mac default_kettle) (product_id default_kettle)
     = Inr [0x7F, 0xC2, 0x78, 0x83, 0x83, 0x11, 0x78, 0xF1]"
  "mixB (reversed_mac default_kettle) (product_id default_kettle)
     = Inr [0x7F, 0xC2, 0x78, 0x00, 0x11, 0x7F, 0x78, 0x83]"
  by (simp_all add: mixA_def mixB_def default_kettle_def and_then_def index_def)

text \<open>
  C8. The object built from the default arguments, and the empty payload: both ciphers
  return the empty sequence, which differs from the 12-byte token, and \<open>checkPairing\<close>
  returns \<open>True\<close>. The claim has \<open>checkPairing\<close> return true exactly when the chained
  decryption equals the token; the source compares with \<open>!=\<close>.
\<close>

theorem checkPairing_true_on_mismatch:
  "init MAC 131 600 3 TOKEN = Inr default_kettle \<and>
   and_then (mixB (reversed_mac default_kettle) (product_id default_kettle)) (\<lambda>keyB.
     and_then (mixA (reversed_mac default_kettle) (product_id default_kettle)) (\<lambda>keyA.
       and_then (cipher keyA []) (\<lambda>inner. cipher keyB inner))) = Inr [] \<and>
   token default_kettle \<noteq> [] \<and>
   checkPairing default_kettle [] = Inr True"
proof -
  have "checkPairing default_kettle [] = Inr True"
    by (simp add: checkPairing_def mix_default and_then_def cipher_empty)
      (simp add: default_kettle_def TOKEN_def)
  moreover have "token default_kettle \<noteq> []"
    by (simp add: default_kettle_def TOKEN_def)
  ultimately show ?thesis
    by (simp add: init_default mix_default and_then_def cipher_empty)
qed

section \<open>Properties of the status decoder\<close>

text \<open>
  C1. The payload \<open>[1, 1, 0, 0, 65, 23, 0, 0, 5]\<close> decodes to heating, boil, 65, 23,
  warm up and a keep warm time of 0: the slice \<open>data[7:8]\<close> holds byte 7 alone. Bytes 7
  and 8 together, read big-endian by \<open>bytes_to_int\<close>, would be 5.
\<close>

theorem parse_data_keep_warm_time_from_byte_7:
  "parse_data [1, 1, 0, 0, 65, 23, 0, 0, 5] =
     Inr [(MI_ACTION, VStr ''heating''), (MI_MODE, VStr ''boil''),
          (MI_SET_TEMPERATURE, VInt 65), (MI_CURRENT_TEMPERATURE, VInt 23),
          (MI_KW_TYPE, VStr ''warm up''), (MI_KW_TIME, VInt 0)] \<and>
   bytes_to_int (take 2 (drop 7 [1, 1, 0, 0, 65, 23, 0, 0, 5])) = 5"
  by (simp add: parse_data_def and_then_def index_def getitem_def MI_ACTION_MAP_def
      MI_MODE_MAP_def MI_KW_TYPE_MAP_def bytes_to_int_def)

text \<open>
  C7, as stated, fails: a payload of 7 bytes is shorter than 8 bytes and decodes, since
  the slice \<open>data[7:8]\<close> of a 7-byte payload is empty and \<open>bytes_to_int\<close> of it is 0.
\<close>

theorem parse_data_seven_bytes_decodes:
  "length [1, 1, 0, 0, 65, 23, 0 :: byte] < 8 \<and>
   parse_data [1, 1, 0, 0, 65, 23, 0] =
     Inr [(MI_ACTION, VStr ''heating''), (MI_MODE, VStr ''boil''),
          (MI_SET_TEMPERATURE, VInt 65), (MI_CURRENT_TEMPERATURE, VInt 23),
          (MI_KW_TYPE, VStr ''warm up''), (MI_KW_TIME, VInt 0)]"
  by (simp add: parse_data_def and_then_def index_def getitem_def MI_ACTION_MAP_def
      MI_MODE_MAP_def MI_KW_TYPE_MAP_def bytes_to_int_def)

text \<open>
  C7, amended. The decoder raises on every payload shorter than 7 bytes and on every
  payload whose byte 0 is not one of the action codes 0..3 (a \<open>KeyError\<close>); it returns a
  reading on every payload of at least 7 bytes whose bytes 0, 1 and 6 are codes of the
  three tables.
\<close>

theorem parse_data_raises_or_returns:
  "(length data < 7 \<longrightarrow> (\<exists>e. parse_data data = Inl e)) \<and>
   (data \<noteq> [] \<and> unat (data ! 0) \<notin> {0, 1, 2, 3} \<longrightarrow> parse_data data = Inl KeyError) \<and>
   (7 \<le> length data \<and> unat (data ! 0) \<in> {0, 1, 2, 3} \<and> unat (data ! 1) \<in> {255, 1, 3}
      \<and> unat (data ! 6) \<in> {0, 1} \<longrightarrow> (\<exists>r. parse_data data = Inr r))"
proof (intro conjI impI)
  assume "length data < 7"
  then show "\<exists>e. parse_data data = Inl e"
    by (auto simp add: parse_data_def and_then_def index_def split: sum.splits)
next
  assume "data \<noteq> [] \<and> unat (data ! 0) \<notin> {0, 1, 2, 3}"
  then show "parse_data data = Inl KeyError"
    by (simp add: parse_data_def and_then_def index_def getitem_def MI_ACTION_MAP_def)
next
  assume "7 \<le> length data \<and> unat (data ! 0) \<in> {0, 1, 2, 3} \<and> unat (data ! 1) \<in> {255, 1, 3}
      \<and> unat (data ! 6) \<in> {0, 1}"
  then show "\<exists>r. parse_data data = Inr r"
    by (auto simp add: parse_data_def and_then_def index_def getitem_def MI_ACTION_MAP_def
        MI_MODE_MAP_def MI_KW_TYPE_MAP_def)
qed

theorem parse_data_raises_or_returns_witness:
  "(\<exists>e. parse_data [1, 1, 0, 0, 65, 23] = Inl e) \<and>
   parse_data [9, 1, 0, 0, 65, 23, 0, 0, 5] = Inl KeyError \<and>
   (\<exists>r. parse_data [1, 1, 0, 0, 65, 23, 0, 0, 5] = Inr r)"
  using parse_data_raises_or_returns [of "[1, 1, 0, 0, 65, 23]"]
    parse_data_raises_or_returns [of "[9, 1, 0, 0, 65, 23, 0, 0, 5]"]
    parse_data_raises_or_returns [of "[1, 1, 0, 0, 65, 23, 0, 0, 5]"]
  by simp

section \<open>Properties of the notification handler\<close>

lemma parse_data_example:
  "parse_data [1, 1, 0, 0, 65, 23, 0, 0, 5] =
     Inr [(MI_ACTION, VStr ''heating''), (MI_MODE, VStr ''boil''),
          (MI_SET_TEMPERATURE, VInt 65), (MI_CURRENT_TEMPERATURE, VInt 23),
          (MI_KW_TYPE, VStr ''warm up''), (MI_KW_TIME, VInt 0)]"
  by (simp add: parse_data_def and_then_def index_def getitem_def MI_ACTION_MAP_def
      MI_MODE_MAP_def MI_KW_TYPE_MAP_def bytes_to_int_def)

text \<open>
  C10. On the status handle, with data that is not \<open>None\<close> and that \<open>_parse_data\<close>
  decodes to \<open>res\<close>, the test \<open>cache_available\<close> holds after the assignment of the cache,
  and the handler returns with the cache set to \<open>res\<close> and \<open>last_read\<close> set to the current
  time: the branch that sets the backoff timestamp is never taken.
\<close>

theorem handleNotification_status_sets_now:
  "parse_data d = Inr res \<Longrightarrow>
     cache_available (self\<lparr>cache := Some res\<rparr>) \<and>
     handleNotification HANDLE_STATUS (Some d) now self
       = (Inr (), self\<lparr>cache := Some res, last_read := Some now\<rparr>)"
  by (simp add: handleNotification_def HANDLE_STATUS_def HANDLE_AUTH_def cache_available_def)

theorem handleNotification_status_sets_now_witness:
  "cache_available (default_kettle\<lparr>cache := Some [(MI_ACTION, VStr ''heating''), (MI_MODE, VStr ''boil''),
          (MI_SET_TEMPERATURE, VInt 65), (MI_CURRENT_TEMPERATURE, VInt 23),
          (MI_KW_TYPE, VStr ''warm up''), (MI_KW_TIME, VInt 0)]\<rparr>) \<and>
   handleNotification HANDLE_STATUS (Some [1, 1, 0, 0, 65, 23, 0, 0, 5]) 1000 default_kettle
     = (Inr (), default_kettle\<lparr>cache := Some [(MI_ACTION, VStr ''heating''), (MI_MODE, VStr ''boil''),
          (MI_SET_TEMPERATURE, VInt 65), (MI_CURRENT_TEMPERATURE, VInt 23),
          (MI_KW_TYPE, VStr ''warm up''), (MI_KW_TIME, VInt 0)],
          last_read := Some 1000\<rparr>)"
  using handleNotification_status_sets_now [OF parse_data_example, of default_kettle 1000]
  by simp

section \<open>Properties of the cache and its timestamp\<close>

subsection \<open>What every call keeps\<close>

lemma frame_refl: "frame w w"
  by (simp add: frame_def)

lemma frame_trans: "frame a b \<Longrightarrow> frame b c \<Longrightarrow> frame a c"
  by (auto simp add: frame_def)

lemma handleNotification_keeps:
  "handleNotification cHandle data now self = (r, self') \<Longrightarrow>
     cache_timeout self' = cache_timeout self \<and>
     (\<not> reading_has_timestamp self \<or> reading_has_timestamp self')"
  by (auto simp add: handleNotification_def reading_has_timestamp_def cache_available_def
      Let_def split: if_splits option.splits sum.splits)

lemma dispatch_keeps:
  "dispatch ns self = (r, self') \<Longrightarrow>
     cache_timeout self' = cache_timeout self \<and>
     (\<not> reading_has_timestamp self \<or> reading_has_timestamp self')"
proof (induction ns arbitrary: self)
  case Nil
  then show ?case by simp
next
  case (Cons n ns)
  obtain now cHandle data where n: "n = (now, cHandle, data)" by (cases n) auto
  obtain r1 s1 where h: "handleNotification cHandle data now self = (r1, s1)"
    by (cases "handleNotification cHandle data now self") auto
  note k1 = handleNotification_keeps [OF h]
  show ?case
  proof (cases r1)
    case (Inl e)
    with Cons.prems n h have "self' = s1" by simp
    with k1 show ?thesis by simp
  next
    case (Inr u)
    with Cons.prems n h have "dispatch ns s1 = (r, self')" by simp
    from Cons.IH [OF this] k1 show ?thesis by auto
  qed
qed

lemma keeps_link_io: "keeps link_io"
proof -
  have "frame w (snd (link_io w))" for w
  proof (cases "link w")
    case Nil
    then show ?thesis by (simp add: link_io_def frame_refl)
  next
    case (Cons c cs)
    obtain r s where d: "dispatch (notifications c) (dev w) = (r, s)"
      by (cases "dispatch (notifications c) (dev w)") auto
    from dispatch_keeps [OF d] Cons d show ?thesis
      by (auto simp add: link_io_def frame_def split: sum.splits option.splits)
  qed
  then show ?thesis by (simp add: keeps_def)
qed

lemma keeps_Peripheral: "keeps Peripheral"
  by (auto simp add: keeps_def Peripheral_def frame_def split: list.splits option.splits)

lemma keeps_assign:
  "(\<And>self. cache_timeout (f self) = cache_timeout self \<and> cache (f self) = cache self
      \<and> last_read (f self) = last_read self) \<Longrightarrow> keeps (assign f)"
  by (auto simp add: keeps_def assign_def frame_def reading_has_timestamp_def)

lemma keeps_challengeResponse_of_ekey: "keeps challengeResponse_of_ekey"
  by (auto simp add: keeps_def challengeResponse_of_ekey_def frame_def
      split: option.splits sum.splits)

lemma keeps_steps: "(\<And>m. m \<in> set ms \<Longrightarrow> keeps m) \<Longrightarrow> keeps (steps ms)"
proof (induction ms)
  case Nil
  then show ?case by (simp add: keeps_def frame_refl)
next
  case (Cons m ms)
  have km: "keeps m" using Cons.prems by simp
  have kms: "keeps (steps ms)" using Cons.IH Cons.prems by simp
  have "frame w (snd (steps (m # ms) w))" for w
  proof -
    obtain r w1 where m: "m w = (r, w1)" by (cases "m w") auto
    have f1: "frame w w1" using km m by (auto simp add: keeps_def dest: spec [of _ w])
    show ?thesis
    proof (cases r)
      case (Inl e)
      with m f1 show ?thesis by simp
    next
      case (Inr u)
      have "frame w1 (snd (steps ms w1))" using kms by (simp add: keeps_def)
      with f1 have "frame w (snd (steps ms w1))" by (rule frame_trans)
      with m Inr show ?thesis by simp
    qed
  qed
  then show ?case by (simp add: keeps_def)
qed

lemma keeps_connect: "keeps connect"
proof -
  have "keeps (steps [Peripheral, assign (\<lambda>self. self\<lparr>connected := True\<rparr>)])"
    by (rule keeps_steps) (auto simp add: keeps_Peripheral intro: keeps_assign)
  then show ?thesis by (simp add: keeps_def connect_def frame_refl)
qed

lemma keeps_auth: "keeps auth"
proof -
  have "keeps (steps [getServiceByUUID, getDescriptors, descriptor_write,
               assign (\<lambda>self. self\<lparr>challenging := True\<rparr>),
               writeCharacteristic, waitForNotifications,
               assign (\<lambda>self. self\<lparr>confirming := True\<rparr>),
               challengeResponse_of_ekey, writeCharacteristic, waitForNotifications,
               readCharacteristic,
               assign (\<lambda>self. self\<lparr>authed := True\<rparr>)])"
    by (rule keeps_steps)
      (auto simp add: keeps_link_io keeps_challengeResponse_of_ekey getServiceByUUID_def
        getDescriptors_def descriptor_write_def writeCharacteristic_def
        waitForNotifications_def readCharacteristic_def intro: keeps_assign)
  then show ?thesis by (simp add: keeps_def auth_def frame_refl)
qed

lemma keeps_subscribeToData: "keeps subscribeToData"
  unfolding subscribeToData_def
  by (rule keeps_steps)
    (auto simp add: keeps_link_io getServiceByUUID_def getDescriptors_def descriptor_write_def)

lemma keeps_fill_cache_try: "keeps fill_cache_try"
  unfolding fill_cache_try_def
  by (rule keeps_steps)
    (auto simp add: keeps_connect keeps_auth keeps_subscribeToData keeps_link_io
      waitForNotifications_def)

lemma fill_cache_frame:
  "fills (snd (fill_cache now w)) = fills w + 1 \<and>
   cache_timeout (dev (snd (fill_cache now w))) = cache_timeout (dev w) \<and>
   (\<not> reading_has_timestamp (dev w) \<or> reading_has_timestamp (dev (snd (fill_cache now w))))"
proof -
  let ?w = "w\<lparr>fills := fills w + 1\<rparr>"
  obtain r w1 where t: "fill_cache_try ?w = (r, w1)" by (cases "fill_cache_try ?w") auto
  have "frame ?w (snd (fill_cache_try ?w))" using keeps_fill_cache_try by (simp add: keeps_def)
  then have f: "frame ?w w1" using t by simp
  show ?thesis
  proof (cases r)
    case (Inl e)
    show ?thesis
    proof (cases "backoff now (cache_timeout (dev w1))")
      case (Inl e')
      with \<open>r = Inl e\<close> t have "snd (fill_cache now w) = w1" by (simp add: fill_cache_def)
      with f show ?thesis by (simp add: frame_def)
    next
      case (Inr b)
      with \<open>r = Inl e\<close> t have "snd (fill_cache now w) = w1\<lparr>dev := (dev w1)\<lparr>last_read := Some b,
          connected := False, authed := False\<rparr>\<rparr>"
        by (simp add: fill_cache_def)
      with f show ?thesis by (simp add: frame_def reading_has_timestamp_def)
    qed
  next
    case (Inr u)
    with t have "snd (fill_cache now w) = w1" by (simp add: fill_cache_def)
    with f show ?thesis by (simp add: frame_def)
  qed
qed

lemma backoff_representable:
  "is_datetime (now - timeout) \<Longrightarrow> is_datetime (now - timeout + seconds 300) \<Longrightarrow>
     backoff now timeout = Inr (now - timeout + seconds 300)"
  by (simp add: backoff_def datetime_sub_def datetime_add_def and_then_def)

lemma fill_cache_failed:
  assumes "fst (fill_cache_try (w\<lparr>fills := fills w + 1\<rparr>)) = Inl e"
    and "is_datetime (now - cache_timeout (dev w))"
    and "is_datetime (now - cache_timeout (dev w) + seconds 300)"
  shows "fst (fill_cache now w) = Inr () \<and>
    last_read (dev (snd (fill_cache now w))) = Some (now - cache_timeout (dev w) + seconds 300)"
proof -
  let ?w = "w\<lparr>fills := fills w + 1\<rparr>"
  obtain w1 where t: "fill_cache_try ?w = (Inl e, w1)"
    using assms(1) by (cases "fill_cache_try ?w") auto
  have "frame ?w (snd (fill_cache_try ?w))" using keeps_fill_cache_try by (simp add: keeps_def)
  then have "cache_timeout (dev w1) = cache_timeout (dev w)" using t by (simp add: frame_def)
  then have "backoff now (cache_timeout (dev w1))
      = Inr (now - cache_timeout (dev w) + seconds 300)"
    using backoff_representable [OF assms(2) assms(3)] by simp
  then show ?thesis using t by (simp add: fill_cache_def)
qed

lemma cache_stale_fresh:
  "last_read self = Some t \<Longrightarrow> is_datetime (now - cache_timeout self) \<Longrightarrow>
     now - t \<le> cache_timeout self \<Longrightarrow> cache_stale True now self = Inr False"
  by (simp add: cache_stale_def datetime_sub_def and_then_def)

lemma cache_stale_expired:
  "last_read self = Some t \<Longrightarrow> is_datetime (now - cache_timeout self) \<Longrightarrow>
     cache_timeout self < now - t \<Longrightarrow> cache_stale True now self = Inr True"
  by (simp add: cache_stale_def datetime_sub_def and_then_def)

lemma cache_stale_overflow:
  "last_read self = Some t \<Longrightarrow> \<not> is_datetime (now - cache_timeout self) \<Longrightarrow>
     cache_stale True now self = Inl OverflowError"
  by (simp add: cache_stale_def datetime_sub_def and_then_def)

lemma cache_stale_no_timestamp:
  "last_read self = None \<Longrightarrow> cache_stale True now self = Inr True"
  by (simp add: cache_stale_def)

lemma parameter_value_no_fill:
  "cache_stale True now (dev w) = Inr False \<Longrightarrow>
     parameter_value parameter True now now' w =
       (case cache (dev w) of
          Some c \<Rightarrow> getitem c parameter
        | None \<Rightarrow> Inl (Exception (''Could not read data from MiKettle '' @ mac (dev w))), w)"
  by (simp add: parameter_value_def split: option.splits)

lemma parameter_value_fill:
  "cache_stale True now (dev w) = Inr True \<Longrightarrow>
     snd (parameter_value parameter True now now' w) = snd (fill_cache now' w)"
  by (cases "fill_cache now' w"; cases "fst (fill_cache now' w)")
    (auto simp add: parameter_value_def split: option.splits)

lemma parameter_value_overflow:
  "cache_stale True now (dev w) = Inl e \<Longrightarrow>
     parameter_value parameter True now now' w = (Inl e, w)"
  by (simp add: parameter_value_def)

lemma parameter_value_frame:
  "cache_timeout (dev (snd (parameter_value parameter read_cached now now' w)))
     = cache_timeout (dev w) \<and>
   (\<not> reading_has_timestamp (dev w)
      \<or> reading_has_timestamp (dev (snd (parameter_value parameter read_cached now now' w))))"
proof (cases "cache_stale read_cached now (dev w)")
  case (Inl e)
  then show ?thesis by (simp add: parameter_value_def)
next
  case (Inr stale)
  show ?thesis
  proof (cases stale)
    case True
    obtain r w1 where f: "fill_cache now' w = (r, w1)" by (cases "fill_cache now' w") auto
    have "snd (parameter_value parameter read_cached now now' w) = w1"
      using Inr True f by (cases r) (auto simp add: parameter_value_def split: option.splits)
    then show ?thesis using fill_cache_frame [of now' w] f by simp
  next
    case False
    then have "snd (parameter_value parameter read_cached now now' w) = w"
      using Inr by (auto simp add: parameter_value_def split: option.splits)
    then show ?thesis by simp
  qed
qed

lemma perform_keeps:
  "reading_has_timestamp (dev w) \<Longrightarrow> reading_has_timestamp (dev (perform op w))"
proof (cases op)
  case (ParameterValue parameter read_cached now now' script)
  assume "reading_has_timestamp (dev w)"
  then show ?thesis
    using parameter_value_frame [of parameter read_cached now now' "w\<lparr>link := script\<rparr>"]
    by (simp add: ParameterValue)
next
  case (FillCache now script)
  assume "reading_has_timestamp (dev w)"
  then show ?thesis using fill_cache_frame [of now "w\<lparr>link := script\<rparr>"]
    by (simp add: FillCache)
next
  case ClearCache
  then show ?thesis by (simp add: clear_cache_def reading_has_timestamp_def)
next
  case (HandleNotification cHandle data now)
  assume a: "reading_has_timestamp (dev w)"
  obtain r s where h: "handleNotification cHandle data now (dev w) = (r, s)"
    by (cases "handleNotification cHandle data now (dev w)") auto
  from handleNotification_keeps [OF h] a h show ?thesis by (simp add: HandleNotification)
next
  case (Connect script)
  assume a: "reading_has_timestamp (dev w)"
  have "frame (w\<lparr>link := script\<rparr>) (snd (connect (w\<lparr>link := script\<rparr>)))"
    using keeps_connect by (simp add: keeps_def)
  with a show ?thesis by (simp add: Connect frame_def)
next
  case (Auth script)
  assume a: "reading_has_timestamp (dev w)"
  have "frame (w\<lparr>link := script\<rparr>) (snd (auth (w\<lparr>link := script\<rparr>)))"
    using keeps_auth by (simp add: keeps_def)
  with a show ?thesis by (simp add: Auth frame_def)
next
  case (SubscribeToData script)
  assume a: "reading_has_timestamp (dev w)"
  have "frame (w\<lparr>link := script\<rparr>) (snd (subscribeToData (w\<lparr>link := script\<rparr>)))"
    using keeps_subscribeToData by (simp add: keeps_def)
  with a show ?thesis by (simp add: SubscribeToData frame_def)
qed

lemma perform_all_keeps:
  "reading_has_timestamp (dev w) \<Longrightarrow> reading_has_timestamp (dev (perform_all ops w))"
  by (induction ops arbitrary: w) (simp_all add: perform_keeps)

lemma init_reading_has_timestamp:
  "init mac0 product_id0 cache_timeout0 retries0 token0 = Inr self \<Longrightarrow>
     reading_has_timestamp (dev (start self))"
  by (auto simp add: init_def and_then_def start_def reading_has_timestamp_def
      split: sum.splits)

subsection \<open>A fill cycle on a link that is down\<close>

lemma fill_cache_try_link_down:
  "\<not> connected self \<Longrightarrow>
   fill_cache_try (start self
       \<lparr>link := [\<lparr>notifications = [], failure = Some LinkError\<rparr>], fills := 1\<rparr>)
     = (Inl LinkError, start self\<lparr>link := [], fills := 1\<rparr>)"
  by (simp add: fill_cache_try_def connect_def Peripheral_def start_def)

lemma fill_cache_link_down:
  "is_datetime (now - seconds 600) \<Longrightarrow> is_datetime (now - seconds 600 + seconds 300) \<Longrightarrow>
   fill_cache now (start default_kettle
       \<lparr>link := [\<lparr>notifications = [], failure = Some LinkError\<rparr>]\<rparr>)
     = (Inr (), \<lparr>dev = default_kettle\<lparr>last_read := Some (now - seconds 600 + seconds 300)\<rparr>,
        link = [], fills = 1\<rparr>)"
  by (simp add: fill_cache_def fill_cache_try_def connect_def Peripheral_def start_def
      default_kettle_def backoff_representable)

lemma fill_cache_link_down_1000:
  "fill_cache (seconds 1000) (start default_kettle
       \<lparr>link := [\<lparr>notifications = [], failure = Some LinkError\<rparr>]\<rparr>)
     = (Inr (), \<lparr>dev = default_kettle\<lparr>last_read := Some (seconds 700)\<rparr>,
        link = [], fills = 1\<rparr>)"
proof -
  have "is_datetime (seconds 1000 - seconds 600)"
    and "is_datetime (seconds 1000 - seconds 600 + seconds 300)"
    by (simp_all add: is_datetime_def seconds_def DATETIME_MAX_def)
  then show ?thesis using fill_cache_link_down [of "seconds 1000"] by (simp add: seconds_def)
qed

lemma init_long_timeout: "init MAC 131 100000000000 3 TOKEN = Inr long_timeout_kettle"
  by (simp add: init_def MAC_def reverseMac_def and_then_def hex_digit_def is_space_def
      default_kettle_def long_timeout_kettle_def timedelta_seconds_def seconds_def
      TIMEDELTA_MIN_def TIMEDELTA_MAX_def)

lemma backoff_long_timeout:
  "backoff (seconds 63929390400) (seconds 100000000000) = Inl OverflowError"
  by (simp add: backoff_def datetime_sub_def and_then_def is_datetime_def seconds_def)

text \<open>
  C2, as stated, fails. The object built from the default arguments has neither a reading
  nor a timestamp. One fill cycle whose first call on the link raises leaves it with a
  timestamp and no reading.
\<close>

theorem both_or_neither_fails_after_failed_fill:
  "init MAC 131 600 3 TOKEN = Inr default_kettle \<and>
   both_or_neither (dev (start default_kettle)) \<and>
   \<not> both_or_neither (dev (perform
       (FillCache (seconds 1000) [\<lparr>notifications = [], failure = Some LinkError\<rparr>])
       (start default_kettle)))"
  by (simp add: init_default fill_cache_link_down_1000 both_or_neither_def)
    (simp add: start_def default_kettle_def)

text \<open>
  C2, amended. From the object that \<open>__init__\<close> builds, after any sequence of operations
  (reads, fill cycles that succeed or fail, notifications, \<open>clear_cache\<close>, connects), each
  with any behaviour of the link, there is no cached reading without a timestamp. After
  \<open>clear_cache\<close> both are absent.
\<close>

theorem reading_never_without_timestamp:
  "init mac0 product_id0 cache_timeout0 retries0 token0 = Inr self \<Longrightarrow>
     reading_has_timestamp (dev (perform_all ops (start self))) \<and>
     cache (dev (perform ClearCache w)) = None \<and>
     last_read (dev (perform ClearCache w)) = None"
  using perform_all_keeps [OF init_reading_has_timestamp, of mac0 product_id0 cache_timeout0
      retries0 token0 self ops]
  by (simp add: clear_cache_def)

theorem reading_never_without_timestamp_witness:
  "reading_has_timestamp (dev (perform_all
       [FillCache (seconds 1000) [\<lparr>notifications = [], failure = Some LinkError\<rparr>],
        HandleNotification HANDLE_STATUS (Some [1, 1, 0, 0, 65, 23, 0, 0, 5]) (seconds 1001),
        ClearCache]
       (start default_kettle))) \<and>
   cache (dev (perform ClearCache (start default_kettle))) = None \<and>
   last_read (dev (perform ClearCache (start default_kettle))) = None"
  using reading_never_without_timestamp [OF init_default,
      of "[FillCache (seconds 1000) [\<lparr>notifications = [], failure = Some LinkError\<rparr>],
        HandleNotification HANDLE_STATUS (Some [1, 1, 0, 0, 65, 23, 0, 0, 5]) (seconds 1001),
        ClearCache]" "start default_kettle"] .

text \<open>
  C4, as stated, fails. The object built with a timeout of \<open>10 ^ 11\<close> seconds, and a fill
  cycle on 4 November 2026 at noon (63929390400 seconds after the start of year 1) whose
  first call on the link raises: \<open>t - cache_timeout\<close> lies before year 1, the handler
  raises \<open>OverflowError\<close>, which escapes from \<open>fill_cache\<close>, and no timestamp is set.
\<close>

theorem failed_fill_long_timeout_sets_no_timestamp:
  "init MAC 131 100000000000 3 TOKEN = Inr long_timeout_kettle \<and>
   is_datetime (seconds 63929390400) \<and>
   fst (fill_cache_try (start long_timeout_kettle
       \<lparr>link := [\<lparr>notifications = [], failure = Some LinkError\<rparr>], fills := 1\<rparr>))
     = Inl LinkError \<and>
   fill_cache (seconds 63929390400) (start long_timeout_kettle
       \<lparr>link := [\<lparr>notifications = [], failure = Some LinkError\<rparr>]\<rparr>)
     = (Inl OverflowError, \<lparr>dev = long_timeout_kettle, link = [], fills = 1\<rparr>) \<and>
   last_read long_timeout_kettle = None"
proof -
  have c: "\<not> connected long_timeout_kettle" "cache_timeout long_timeout_kettle = seconds 100000000000"
    "last_read long_timeout_kettle = None"
    by (simp_all add: long_timeout_kettle_def default_kettle_def)
  have d: "is_datetime (seconds 63929390400)"
    by (simp add: is_datetime_def seconds_def DATETIME_MAX_def)
  have t: "fill_cache_try (start long_timeout_kettle
       \<lparr>link := [\<lparr>notifications = [], failure = Some LinkError\<rparr>], fills := 1\<rparr>)
     = (Inl LinkError, start long_timeout_kettle\<lparr>link := [], fills := 1\<rparr>)"
    using c(1) by (rule fill_cache_try_link_down)
  have s: "(start long_timeout_kettle
       \<lparr>link := [\<lparr>notifications = [], failure = Some LinkError\<rparr>]\<rparr>)
       \<lparr>fills := fills (start long_timeout_kettle
       \<lparr>link := [\<lparr>notifications = [], failure = Some LinkError\<rparr>]\<rparr>) + 1\<rparr>
     = start long_timeout_kettle
       \<lparr>link := [\<lparr>notifications = [], failure = Some LinkError\<rparr>], fills := 1\<rparr>"
    by (simp add: start_def)
  have f: "fill_cache (seconds 63929390400) (start long_timeout_kettle
       \<lparr>link := [\<lparr>notifications = [], failure = Some LinkError\<rparr>]\<rparr>)
     = (Inl OverflowError, \<lparr>dev = long_timeout_kettle, link = [], fills = 1\<rparr>)"
    unfolding fill_cache_def Let_def s t
    by (simp add: start_def c(2) backoff_long_timeout)
  from init_long_timeout d t f c(3) show ?thesis by simp
qed

text \<open>
  C4, amended. A fill cycle whose \<open>try\<close> body raises, with the clock at \<open>t\<close> in the
  handler, where \<open>t - cache_timeout\<close> and \<open>t - cache_timeout + 300 s\<close> are dates that
  \<open>datetime\<close> represents, returns and sets \<open>last_read\<close> to \<open>t - cache_timeout + 300 s\<close>,
  whatever such timeout it is. A later \<open>parameter_value\<close> with \<open>read_cached = True\<close> at
  the time \<open>now\<close>, with \<open>now - cache_timeout\<close> a date that \<open>datetime\<close> represents, leaves
  the object as it is (no fill cycle) while \<open>now - t\<close> is at most 300 seconds, and enters
  \<open>fill_cache\<close> once \<open>now - t\<close> exceeds 300 seconds.
\<close>

theorem failed_fill_backs_off_five_minutes:
  "fst (fill_cache_try (w\<lparr>fills := fills w + 1\<rparr>)) = Inl e \<Longrightarrow>
   is_datetime (t - cache_timeout (dev w)) \<Longrightarrow>
   is_datetime (t - cache_timeout (dev w) + seconds 300) \<Longrightarrow>
   is_datetime (now - cache_timeout (dev w)) \<Longrightarrow>
     fst (fill_cache t w) = Inr () \<and>
     last_read (dev (snd (fill_cache t w)))
       = Some (t - cache_timeout (dev w) + seconds 300) \<and>
     (now - t \<le> seconds 300 \<longrightarrow>
        snd (parameter_value parameter True now now'
               ((snd (fill_cache t w))\<lparr>link := script\<rparr>))
          = (snd (fill_cache t w))\<lparr>link := script\<rparr>) \<and>
     (seconds 300 < now - t \<longrightarrow>
        fills (snd (parameter_value parameter True now now'
                 ((snd (fill_cache t w))\<lparr>link := script\<rparr>)))
          = fills (snd (fill_cache t w)) + 1)"
proof -
  assume a: "fst (fill_cache_try (w\<lparr>fills := fills w + 1\<rparr>)) = Inl e"
    and d1: "is_datetime (t - cache_timeout (dev w))"
    and d2: "is_datetime (t - cache_timeout (dev w) + seconds 300)"
    and d3: "is_datetime (now - cache_timeout (dev w))"
  let ?w1 = "snd (fill_cache t w)"
  let ?w2 = "?w1\<lparr>link := script\<rparr>"
  note ff = fill_cache_failed [OF a d1 d2]
  have ok: "fst (fill_cache t w) = Inr ()" using ff by simp
  have lr: "last_read (dev ?w1) = Some (t - cache_timeout (dev w) + seconds 300)"
    using ff by simp
  have ct: "cache_timeout (dev ?w1) = cache_timeout (dev w)"
    using fill_cache_frame [of t w] by simp
  have lr2: "last_read (dev ?w2) = Some (t - cache_timeout (dev ?w2) + seconds 300)"
    using lr ct by simp
  have d3': "is_datetime (now - cache_timeout (dev ?w2))" using d3 ct by simp
  have no: "snd (parameter_value parameter True now now' ?w2) = ?w2"
    if "now - t \<le> seconds 300"
  proof -
    have "now - (t - cache_timeout (dev ?w2) + seconds 300) \<le> cache_timeout (dev ?w2)"
      using that by simp
    then have "cache_stale True now (dev ?w2) = Inr False"
      using cache_stale_fresh [OF lr2 d3'] by simp
    then show ?thesis using parameter_value_no_fill [of now ?w2 parameter now'] by simp
  qed
  have yes: "fills (snd (parameter_value parameter True now now' ?w2))
      = fills ?w1 + 1" if "seconds 300 < now - t"
  proof -
    have "cache_timeout (dev ?w2) < now - (t - cache_timeout (dev ?w2) + seconds 300)"
      using that by simp
    then have "cache_stale True now (dev ?w2) = Inr True"
      using cache_stale_expired [OF lr2 d3'] by simp
    then have "snd (parameter_value parameter True now now' ?w2) = snd (fill_cache now' ?w2)"
      by (rule parameter_value_fill)
    then show ?thesis using fill_cache_frame [of now' ?w2] by simp
  qed
  from ok lr no yes show ?thesis by blast
qed

theorem failed_fill_backs_off_five_minutes_witness:
  "fst (fill_cache (seconds 1000) (start default_kettle
       \<lparr>link := [\<lparr>notifications = [], failure = Some LinkError\<rparr>]\<rparr>)) = Inr () \<and>
   last_read (dev (snd (fill_cache (seconds 1000) (start default_kettle
       \<lparr>link := [\<lparr>notifications = [], failure = Some LinkError\<rparr>]\<rparr>))))
     = Some (seconds 1000 - cache_timeout (dev (start default_kettle
          \<lparr>link := [\<lparr>notifications = [], failure = Some LinkError\<rparr>]\<rparr>)) + seconds 300) \<and>
   snd (parameter_value MI_ACTION True (seconds 1300) (seconds 1301)
          ((snd (fill_cache (seconds 1000) (start default_kettle
             \<lparr>link := [\<lparr>notifications = [], failure = Some LinkError\<rparr>]\<rparr>)))\<lparr>link := []\<rparr>))
     = (snd (fill_cache (seconds 1000) (start default_kettle
          \<lparr>link := [\<lparr>notifications = [], failure = Some LinkError\<rparr>]\<rparr>)))\<lparr>link := []\<rparr> \<and>
   fills (snd (parameter_value MI_ACTION True (seconds 1301) (seconds 1302)
          ((snd (fill_cache (seconds 1000) (start default_kettle
             \<lparr>link := [\<lparr>notifications = [], failure = Some LinkError\<rparr>]\<rparr>)))\<lparr>link := []\<rparr>)))
     = fills (snd (fill_cache (seconds 1000) (start default_kettle
          \<lparr>link := [\<lparr>notifications = [], failure = Some LinkError\<rparr>]\<rparr>))) + 1"
proof -
  let ?w = "start default_kettle\<lparr>link := [\<lparr>notifications = [], failure = Some LinkError\<rparr>]\<rparr>"
  have h: "fst (fill_cache_try (?w\<lparr>fills := fills ?w + 1\<rparr>)) = Inl LinkError"
    by (simp add: fill_cache_try_def connect_def Peripheral_def start_def default_kettle_def)
  have d1: "is_datetime (seconds 1000 - cache_timeout (dev ?w))"
    and d2: "is_datetime (seconds 1000 - cache_timeout (dev ?w) + seconds 300)"
    and d3: "is_datetime (seconds 1300 - cache_timeout (dev ?w))"
    and d4: "is_datetime (seconds 1301 - cache_timeout (dev ?w))"
    by (simp_all add: start_def default_kettle_def is_datetime_def seconds_def DATETIME_MAX_def)
  have c1: "seconds 1300 - seconds 1000 \<le> seconds 300"
    and c2: "seconds 300 < seconds 1301 - seconds 1000"
    by (simp_all add: seconds_def)
  show ?thesis
    using failed_fill_backs_off_five_minutes [OF h d1 d2 d3, of MI_ACTION "seconds 1301" "[]"]
      failed_fill_backs_off_five_minutes [OF h d1 d2 d4, of MI_ACTION "seconds 1302" "[]"]
      c1 c2
    by blast
qed

section \<open>Properties of the cached read\<close>

lemma status_notification_long_timeout:
  "perform (HandleNotification HANDLE_STATUS (Some [1, 1, 0, 0, 65, 23, 0, 0, 5])
       (seconds 63929390400)) (start long_timeout_kettle)
     = start (long_timeout_kettle
         \<lparr>cache := Some [(MI_ACTION, VStr ''heating''), (MI_MODE, VStr ''boil''),
            (MI_SET_TEMPERATURE, VInt 65), (MI_CURRENT_TEMPERATURE, VInt 23),
            (MI_KW_TYPE, VStr ''warm up''), (MI_KW_TIME, VInt 0)],
          last_read := Some (seconds 63929390400)\<rparr>)"
  by (simp add: handleNotification_def HANDLE_STATUS_def HANDLE_AUTH_def cache_available_def
      parse_data_example start_def)

text \<open>
  C5, as stated, fails, in two ways. After a failed first fill cycle at 1000 s no reading
  exists; a read with \<open>read_cached = True\<close> at 1100 s neither serves a reading nor enters
  a fill cycle: it raises the no-data exception and leaves the object and the counter as
  they are. And on the object built with a timeout of \<open>10 ^ 11\<close> seconds, 500 s after a
  status notification has set the reading and the timestamp (so that \<open>now - last_read\<close> is
  at most the timeout), the read does not serve the reading: \<open>now - cache_timeout\<close> lies
  before year 1 and the test of the cache raises \<open>OverflowError\<close>.
\<close>

theorem no_reading_yet_no_fill_during_backoff:
  "init MAC 131 600 3 TOKEN = Inr default_kettle \<and>
   cache (dev (perform
       (FillCache (seconds 1000) [\<lparr>notifications = [], failure = Some LinkError\<rparr>])
       (start default_kettle))) = None \<and>
   parameter_value MI_ACTION True (seconds 1100) (seconds 1101)
     (perform (FillCache (seconds 1000) [\<lparr>notifications = [], failure = Some LinkError\<rparr>])
        (start default_kettle))
     = (Inl (Exception (''Could not read data from MiKettle '' @ MAC)),
        perform (FillCache (seconds 1000) [\<lparr>notifications = [], failure = Some LinkError\<rparr>])
          (start default_kettle)) \<and>
   init MAC 131 100000000000 3 TOKEN = Inr long_timeout_kettle \<and>
   cache (dev (perform
       (HandleNotification HANDLE_STATUS (Some [1, 1, 0, 0, 65, 23, 0, 0, 5])
          (seconds 63929390400))
       (start long_timeout_kettle))) \<noteq> None \<and>
   parameter_value MI_ACTION True (seconds 63929390900) (seconds 63929390901)
     (perform
        (HandleNotification HANDLE_STATUS (Some [1, 1, 0, 0, 65, 23, 0, 0, 5])
           (seconds 63929390400))
        (start long_timeout_kettle))
     = (Inl OverflowError,
        perform
          (HandleNotification HANDLE_STATUS (Some [1, 1, 0, 0, 65, 23, 0, 0, 5])
             (seconds 63929390400))
          (start long_timeout_kettle))"
proof -
  have a: "cache (dev (perform
       (FillCache (seconds 1000) [\<lparr>notifications = [], failure = Some LinkError\<rparr>])
       (start default_kettle))) = None"
    by (simp add: fill_cache_link_down_1000) (simp add: default_kettle_def)
  have b: "parameter_value MI_ACTION True (seconds 1100) (seconds 1101)
     (perform (FillCache (seconds 1000) [\<lparr>notifications = [], failure = Some LinkError\<rparr>])
        (start default_kettle))
     = (Inl (Exception (''Could not read data from MiKettle '' @ MAC)),
        perform (FillCache (seconds 1000) [\<lparr>notifications = [], failure = Some LinkError\<rparr>])
          (start default_kettle))"
    by (simp add: fill_cache_link_down_1000 parameter_value_def cache_stale_def
        datetime_sub_def and_then_def)
      (simp add: default_kettle_def seconds_def is_datetime_def DATETIME_MAX_def)
  have c: "cache (dev (perform
       (HandleNotification HANDLE_STATUS (Some [1, 1, 0, 0, 65, 23, 0, 0, 5])
          (seconds 63929390400))
       (start long_timeout_kettle))) \<noteq> None"
    unfolding status_notification_long_timeout by (simp add: start_def)
  have d: "parameter_value MI_ACTION True (seconds 63929390900) (seconds 63929390901)
     (perform
        (HandleNotification HANDLE_STATUS (Some [1, 1, 0, 0, 65, 23, 0, 0, 5])
           (seconds 63929390400))
        (start long_timeout_kettle))
     = (Inl OverflowError,
        perform
          (HandleNotification HANDLE_STATUS (Some [1, 1, 0, 0, 65, 23, 0, 0, 5])
             (seconds 63929390400))
          (start long_timeout_kettle))"
    unfolding status_notification_long_timeout
    by (rule parameter_value_overflow, rule cache_stale_overflow [of _ "seconds 63929390400"])
      (simp_all add: start_def long_timeout_kettle_def default_kettle_def is_datetime_def
        seconds_def)
  from init_default a b init_long_timeout c d show ?thesis by simp
qed

text \<open>
  C5, amended. With \<open>read_cached = True\<close> and \<open>now - cache_timeout\<close> a date that
  \<open>datetime\<close> represents: if a timestamp \<open>last_read\<close> exists and \<open>now - last_read\<close> is at
  most the timeout, \<open>parameter_value\<close> enters no fill cycle and changes nothing; it
  returns the requested field of the cached reading, or raises the no-data exception when
  no reading is cached. If no timestamp exists (whatever the timeout), or
  \<open>now - last_read\<close> exceeds the timeout, it enters \<open>fill_cache\<close>, once. If a timestamp
  exists and \<open>now - cache_timeout\<close> is not a date that \<open>datetime\<close> represents, it raises
  \<open>OverflowError\<close> and changes nothing. With a timeout of 600 s, \<open>last_read = now - 500 s\<close>
  is served from the cache and \<open>last_read = now - 700 s\<close> enters a fill cycle.
\<close>

theorem parameter_value_fills_iff_stale:
  "(last_read (dev w) = Some t \<and> is_datetime (now - cache_timeout (dev w))
      \<and> now - t \<le> cache_timeout (dev w) \<longrightarrow>
      parameter_value parameter True now now' w =
        (case cache (dev w) of
           Some c \<Rightarrow> getitem c parameter
         | None \<Rightarrow> Inl (Exception (''Could not read data from MiKettle '' @ mac (dev w))),
         w)) \<and>
   (last_read (dev w) = None
      \<or> (last_read (dev w) = Some t \<and> is_datetime (now - cache_timeout (dev w))
          \<and> cache_timeout (dev w) < now - t) \<longrightarrow>
      snd (parameter_value parameter True now now' w) = snd (fill_cache now' w) \<and>
      fills (snd (parameter_value parameter True now now' w)) = fills w + 1) \<and>
   (last_read (dev w) = Some t \<and> \<not> is_datetime (now - cache_timeout (dev w)) \<longrightarrow>
      parameter_value parameter True now now' w = (Inl OverflowError, w))"
proof (intro conjI impI)
  assume "last_read (dev w) = Some t \<and> is_datetime (now - cache_timeout (dev w))
      \<and> now - t \<le> cache_timeout (dev w)"
  then have "cache_stale True now (dev w) = Inr False"
    using cache_stale_fresh [of "dev w" t now] by simp
  then show "parameter_value parameter True now now' w =
        (case cache (dev w) of
           Some c \<Rightarrow> getitem c parameter
         | None \<Rightarrow> Inl (Exception (''Could not read data from MiKettle '' @ mac (dev w))),
         w)"
    by (rule parameter_value_no_fill)
next
  assume a: "last_read (dev w) = None
      \<or> (last_read (dev w) = Some t \<and> is_datetime (now - cache_timeout (dev w))
          \<and> cache_timeout (dev w) < now - t)"
  then have "cache_stale True now (dev w) = Inr True"
    using cache_stale_no_timestamp [of "dev w" now] cache_stale_expired [of "dev w" t now]
    by blast
  then show "snd (parameter_value parameter True now now' w) = snd (fill_cache now' w)"
    by (rule parameter_value_fill)
  then show "fills (snd (parameter_value parameter True now now' w)) = fills w + 1"
    using fill_cache_frame [of now' w] by simp
next
  assume "last_read (dev w) = Some t \<and> \<not> is_datetime (now - cache_timeout (dev w))"
  then have "cache_stale True now (dev w) = Inl OverflowError"
    using cache_stale_overflow [of "dev w" t now] by simp
  then show "parameter_value parameter True now now' w = (Inl OverflowError, w)"
    by (rule parameter_value_overflow)
qed

theorem parameter_value_fills_iff_stale_witness:
  "parameter_value MI_ACTION True (seconds 1000) (seconds 1001)
     (start (default_kettle
        \<lparr>cache := Some [(MI_ACTION, VStr ''heating'')], last_read := Some (seconds 500)\<rparr>))
     = (Inr (VStr ''heating''),
        start (default_kettle
          \<lparr>cache := Some [(MI_ACTION, VStr ''heating'')], last_read := Some (seconds 500)\<rparr>)) \<and>
   fills (snd (parameter_value MI_ACTION True (seconds 1000) (seconds 1001)
     (start (default_kettle
        \<lparr>cache := Some [(MI_ACTION, VStr ''heating'')], last_read := Some (seconds 300)\<rparr>))))
     = 1 \<and>
   parameter_value MI_ACTION True (seconds 500) (seconds 501)
     (start (default_kettle
        \<lparr>cache := Some [(MI_ACTION, VStr ''heating'')], last_read := Some (seconds 300)\<rparr>))
     = (Inl OverflowError,
        start (default_kettle
          \<lparr>cache := Some [(MI_ACTION, VStr ''heating'')], last_read := Some (seconds 300)\<rparr>))"
proof -
  let ?fresh = "start (default_kettle
        \<lparr>cache := Some [(MI_ACTION, VStr ''heating'')], last_read := Some (seconds 500)\<rparr>)"
  let ?stale = "start (default_kettle
        \<lparr>cache := Some [(MI_ACTION, VStr ''heating'')], last_read := Some (seconds 300)\<rparr>)"
  have h1: "last_read (dev ?fresh) = Some (seconds 500)
      \<and> is_datetime (seconds 1000 - cache_timeout (dev ?fresh))
      \<and> seconds 1000 - seconds 500 \<le> cache_timeout (dev ?fresh)"
    by (simp add: start_def default_kettle_def seconds_def is_datetime_def DATETIME_MAX_def)
  have h2: "last_read (dev ?stale) = None
      \<or> (last_read (dev ?stale) = Some (seconds 300)
          \<and> is_datetime (seconds 1000 - cache_timeout (dev ?stale))
          \<and> cache_timeout (dev ?stale) < seconds 1000 - seconds 300)"
    by (simp add: start_def default_kettle_def seconds_def is_datetime_def DATETIME_MAX_def)
  have h3: "last_read (dev ?stale) = Some (seconds 300)
      \<and> \<not> is_datetime (seconds 500 - cache_timeout (dev ?stale))"
    by (simp add: start_def default_kettle_def seconds_def is_datetime_def)
  have c: "cache (dev ?fresh) = Some [(MI_ACTION, VStr ''heating'')]"
    by (simp add: start_def)
  have f: "fills ?stale = 0" by (simp add: start_def)
  have "parameter_value MI_ACTION True (seconds 1000) (seconds 1001) ?fresh
      = (Inr (VStr ''heating''), ?fresh)"
    using parameter_value_fills_iff_stale [of ?fresh "seconds 500" "seconds 1000" MI_ACTION
        "seconds 1001"] h1 c
    by (simp add: getitem_def)
  moreover have "fills (snd (parameter_value MI_ACTION True (seconds 1000) (seconds 1001)
      ?stale)) = fills ?stale + 1"
    using parameter_value_fills_iff_stale [of ?stale "seconds 300" "seconds 1000" MI_ACTION
        "seconds 1001"] h2
    by blast
  then have "fills (snd (parameter_value MI_ACTION True (seconds 1000) (seconds 1001)
      ?stale)) = 1"
    unfolding f by simp
  moreover have "parameter_value MI_ACTION True (seconds 500) (seconds 501) ?stale
      = (Inl OverflowError, ?stale)"
    using parameter_value_fills_iff_stale [of ?stale "seconds 300" "seconds 500" MI_ACTION
        "seconds 501"] h3
    by blast
  ultimately show ?thesis by simp
qed

end
